theory Spec2Isabelle
  imports Main
begin

section \<open>JavaScript values\<close>

text \<open>
  The data that flows through apollo-helpers: schema fragments, resolver trees, the
  objects returned by context functions and the option bags of the executor. A plain
  object is the list of its own enumerable properties, an array the list of its elements.
  A function is an opaque reference (\<open>Fn\<close>): two function values are the same function
  exactly when their references are equal; \<open>Curried\<close> is a function made by Ramda's
  currying that still waits for arguments. A function value has no enumerable property of
  its own, and what else a function object owns (\<open>length\<close>, \<open>name\<close>) is not part of
  the value.

  A value does not record its prototype: an object is taken to inherit from
  \<open>Object.prototype\<close>, and what the code below does to the prototype of an object it
  builds (an assignment to \<open>__proto__\<close>) shows in the model only in that no own property
  is made.
\<close>

datatype jsval =
    Undefined
  | Null
  | Bool bool
  | Num int
  | Str string
  | Fn nat
  | Curried
  | Arr "jsval list"
  | Obj "(string \<times> jsval) list"

type_synonym props = "(string \<times> jsval) list"

text \<open>
  What a \<open>throw\<close> carries: a runtime \<open>TypeError\<close>, the \<open>Error\<close> of Ramda's \<open>_arity\<close>
  (\<open>First argument to _arity must be a non-negative integer no greater than ten\<close>), or a
  value thrown by user code.
\<close>

datatype error = TypeError | ArityError | Thrown jsval

text \<open>
  A JavaScript function called with one argument: it may change the world \<open>'s\<close> (anything
  outside the values it is given) and either returns a value or throws.
\<close>

type_synonym 's jsfun = "jsval \<Rightarrow> 's \<Rightarrow> (error + jsval) \<times> 's"

text \<open>
  A function as a context function is one: the number of parameters it declares (its
  \<open>length\<close>) and what a call of it with one argument does.
\<close>

record 's jsfunction =
  fn_length :: nat
  fn_call :: "'s jsfun"

text \<open>\<open>R.isNil\<close>: \<open>x == null\<close>, true of \<open>undefined\<close> and \<open>null\<close> only.\<close>

fun isNil :: "jsval \<Rightarrow> bool" where
  "isNil Undefined = True"
| "isNil Null = True"
| "isNil _ = False"

text \<open>
  Ramda's \<open>_isObject\<close>: \<open>Object.prototype.toString.call(x) === '[object Object]'\<close>.
  Arrays, functions, strings, numbers and nil are not objects in this sense.
\<close>

fun isObject :: "jsval \<Rightarrow> bool" where
  "isObject (Obj _) = True"
| "isObject _ = False"

text \<open>What \<open>if (x)\<close> and \<open>x && y\<close> take for true.\<close>

fun truthy :: "jsval \<Rightarrow> bool" where
  "truthy Undefined = False"
| "truthy Null = False"
| "truthy (Bool b) = b"
| "truthy (Num n) = (n \<noteq> 0)"
| "truthy (Str s) = (s \<noteq> [])"
| "truthy _ = True"

text \<open>The decimal spelling of an array index, as a property key.\<close>

fun toStringNat :: "nat \<Rightarrow> string" where
  "toStringNat n =
     (if n < 10 then [''0123456789'' ! n]
      else toStringNat (n div 10) @ [''0123456789'' ! (n mod 10)])"

declare toStringNat.simps [simp del]

text \<open>
  The own enumerable properties a \<open>for (k in x)\<close> loop guarded by \<open>hasOwnProperty\<close>
  visits, which are also the ones \<open>Object.assign\<close> copies from a source: the properties of
  a plain object, the indices of an array or of a string, nothing for any other value.
  An array and a string own a \<open>length\<close> as well, which is not enumerable.
\<close>

fun ownProps :: "jsval \<Rightarrow> props" where
  "ownProps (Obj kvs) = kvs"
| "ownProps (Arr xs) = zip (map toStringNat [0..<length xs]) xs"
| "ownProps (Str s) = zip (map toStringNat [0..<length s]) (map (\<lambda>c. Str [c]) s)"
| "ownProps _ = []"

fun hiddenProps :: "jsval \<Rightarrow> props" where
  "hiddenProps (Arr xs) = [(''length'', Num (int (length xs)))]"
| "hiddenProps (Str s) = [(''length'', Num (int (length s)))]"
| "hiddenProps _ = []"

text \<open>
  Ramda's \<open>_has(prop, obj)\<close>: \<open>Object.prototype.hasOwnProperty.call(obj, prop)\<close>, which
  throws a \<open>TypeError\<close> on \<open>undefined\<close> and \<open>null\<close>.
\<close>

definition has :: "string \<Rightarrow> jsval \<Rightarrow> error + bool" where
  "has prop obj =
     (if isNil obj then Inl TypeError
      else Inr (map_of (ownProps obj @ hiddenProps obj) prop \<noteq> None))"

text \<open>
  \<open>obj[k]\<close> on a value that is not nil, for a key that the built-in prototypes do not
  define (the keys this code reads are such): the value of the own property, \<open>undefined\<close>
  when there is none.
\<close>

definition getProp :: "string \<Rightarrow> jsval \<Rightarrow> jsval" where
  "getProp k x =
     (case map_of (ownProps x @ hiddenProps x) k of Some v \<Rightarrow> v | None \<Rightarrow> Undefined)"

text \<open>
  \<open>target[k] = v\<close> on a plain object. An existing property keeps its place, a new one
  goes last. The key \<open>__proto__\<close> is the exception: unless the object owns a property of
  that name, the assignment goes to the setter it inherits from \<open>Object.prototype\<close>,
  which changes the prototype (or nothing, for a \<open>v\<close> that is no object) and makes no
  property.
\<close>

fun putProp :: "string \<Rightarrow> 'v \<Rightarrow> (string \<times> 'v) list \<Rightarrow> (string \<times> 'v) list" where
  "putProp k v [] = [(k, v)]"
| "putProp k v ((k', v') # ps) =
     (if k' = k then (k, v) # ps else (k', v') # putProp k v ps)"

definition setProp :: "string \<Rightarrow> 'v \<Rightarrow> (string \<times> 'v) list \<Rightarrow> (string \<times> 'v) list" where
  "setProp k v ps =
     (if k = ''__proto__'' \<and> map_of ps k = None then ps else putProp k v ps)"

section \<open>The Ramda functions used by the compiler\<close>

text \<open>
  \<open>R.pluck\<close>, \<open>R.reject\<close>, \<open>R.reduce\<close>, \<open>R.mergeDeepRight\<close>, \<open>R.juxt\<close> and
  \<open>R.mergeAll\<close> of ramda 0.26, on the calls the compiler makes, where the lists are
  arrays. Ramda's functions are curried: given its placeholder \<open>R.__\<close> for an argument,
  a function does not run but returns a function that waits for that argument.
  \<open>_isPlaceholder(a)\<close> is
  \<^verbatim>\<open>a != null && typeof a === 'object' && a['@@functional/placeholder'] === true\<close>.
\<close>

definition isPlaceholder :: "jsval \<Rightarrow> bool" where
  "isPlaceholder a =
     (case a of
        Obj kvs \<Rightarrow> map_of kvs ''@@functional/placeholder'' = Some (Bool True)
      | _ \<Rightarrow> False)"

definition pluck :: "('a \<Rightarrow> 'b) \<Rightarrow> 'a list \<Rightarrow> 'b list" where
  "pluck p list = map p list"

text \<open>
  \<open>R.isNil\<close> is \<^verbatim>\<open>_curry1(function isNil(x) { return x == null; })\<close>: given the
  placeholder it does not answer but returns itself, a function. \<open>_complement(f)\<close> is
  \<^verbatim>\<open>function() { return !f.apply(this, arguments); }\<close>, and \<open>R.reject(pred, list)\<close>
  is \<open>filter(_complement(pred), list)\<close>: an element stays when \<open>pred\<close> of it is not
  truthy. So \<open>R.reject(R.isNil)\<close> drops \<open>undefined\<close>, \<open>null\<close> and the placeholder.
\<close>

definition R_isNil :: "jsval \<Rightarrow> jsval" where
  "R_isNil x = (if isPlaceholder x then Curried else Bool (isNil x))"

definition complement :: "('a \<Rightarrow> jsval) \<Rightarrow> 'a \<Rightarrow> bool" where
  "complement f x = (\<not> truthy (f x))"

definition reject :: "('a \<Rightarrow> jsval) \<Rightarrow> 'a list \<Rightarrow> 'a list" where
  "reject pred list = filter (complement pred) list"

text \<open>
  \<open>R.reduce(fn, acc, list)\<close> on an array, Ramda's \<open>_arrayReduce\<close>:
  \<^verbatim>\<open>
  while (idx < len) {
    acc = xf['@@transducer/step'](acc, list[idx]);
    if (acc && acc['@@transducer/reduced']) { acc = acc['@@transducer/value']; break; }
    idx += 1;
  }
  return xf['@@transducer/result'](acc);
  \<close>
  An accumulator that carries the mark \<open>@@transducer/reduced\<close> ends the reduction.
\<close>

fun reduce ::
  "(jsval \<Rightarrow> jsval \<Rightarrow> error + jsval) \<Rightarrow> jsval \<Rightarrow> jsval list \<Rightarrow> error + jsval" where
  "reduce fn acc [] = Inr acc"
| "reduce fn acc (x # list) =
     (case fn acc x of
        Inl e \<Rightarrow> Inl e
      | Inr acc' \<Rightarrow>
          if truthy acc' \<and> truthy (getProp ''@@transducer/reduced'' acc')
          then Inr (getProp ''@@transducer/value'' acc')
          else reduce fn acc' list)"

text \<open>
  \<open>R.mergeWithKey\<close>, a function of three arguments under \<open>_curry3\<close>:
  \<^verbatim>\<open>
  var result = {}; var k;
  for (k in l) { if (_has(k, l)) { result[k] = _has(k, r) ? fn(k, l[k], r[k]) : l[k]; } }
  for (k in r) { if (_has(k, r) && !(_has(k, result))) { result[k] = r[k]; } }
  return result;
  \<close>
  The two loops, each over the properties still to visit, with the properties of
  \<open>result\<close> so far.
\<close>

type_synonym mergefn = "string \<Rightarrow> jsval \<Rightarrow> jsval \<Rightarrow> error + jsval"

fun mergeLeftLoop :: "mergefn \<Rightarrow> jsval \<Rightarrow> props \<Rightarrow> props \<Rightarrow> error + props" where
  "mergeLeftLoop fn r [] result = Inr result"
| "mergeLeftLoop fn r ((k, lVal) # ps) result =
     (case has k r of
        Inl e \<Rightarrow> Inl e
      | Inr True \<Rightarrow>
          (case fn k lVal (getProp k r) of
             Inl e \<Rightarrow> Inl e
           | Inr v \<Rightarrow> mergeLeftLoop fn r ps (setProp k v result))
      | Inr False \<Rightarrow> mergeLeftLoop fn r ps (setProp k lVal result))"

fun mergeRightLoop :: "props \<Rightarrow> props \<Rightarrow> props" where
  "mergeRightLoop [] result = result"
| "mergeRightLoop ((k, rVal) # ps) result =
     mergeRightLoop ps (if map_of result k = None then setProp k rVal result else result)"

definition mergeWithKey :: "mergefn \<Rightarrow> jsval \<Rightarrow> jsval \<Rightarrow> error + jsval" where
  "mergeWithKey fn l r =
     (if isPlaceholder l \<or> isPlaceholder r then Inr Curried
      else case mergeLeftLoop fn r (ownProps l) [] of
             Inl e \<Rightarrow> Inl e
           | Inr result \<Rightarrow> Inr (Obj (mergeRightLoop (ownProps r) result)))"

lemma mergeLeftLoop_cong:
  assumes "\<And>k lVal. (k, lVal) \<in> set ps \<Longrightarrow> fn k lVal (getProp k r) = fn' k lVal (getProp k r)"
  shows "mergeLeftLoop fn r ps result = mergeLeftLoop fn' r ps result"
  using assms
proof (induction ps arbitrary: result)
  case Nil
  show ?case by simp
next
  case (Cons p ps)
  obtain k lVal where p: "p = (k, lVal)" by (cases p)
  have 1: "fn k lVal (getProp k r) = fn' k lVal (getProp k r)"
    using Cons.prems [of k lVal] by (simp add: p)
  have 2: "mergeLeftLoop fn r ps res = mergeLeftLoop fn' r ps res" for res
    by (rule Cons.IH) (use Cons.prems in auto)
  show ?case
    by (simp add: p 1 2 split: sum.splits bool.splits)
qed

lemma mergeWithKey_cong [fundef_cong]:
  assumes "l = l'" and "r = r'"
    and "\<And>k lVal. (k, lVal) \<in> set (ownProps l') \<Longrightarrow>
           fn k lVal (getProp k r') = fn' k lVal (getProp k r')"
  shows "mergeWithKey fn l r = mergeWithKey fn' l' r'"
  unfolding mergeWithKey_def assms(1) assms(2)
  using mergeLeftLoop_cong [of "ownProps l'" fn r' fn' "[]", OF assms(3)] by simp

lemma size_ownProps:
  assumes "(k, v) \<in> set (ownProps x)" and "isObject v"
  shows "size v < size x"
proof (cases x)
  case (Obj kvs)
  have "(k, v) \<in> set kvs \<Longrightarrow> size v < Suc (size_list (size_prod (\<lambda>x. 0) size) kvs)"
    by (induction kvs) auto
  with assms Obj show ?thesis by simp
next
  case (Arr xs)
  with assms have "v \<in> set xs" by (auto dest: set_zip_rightD)
  then have "size v < Suc (size_list size xs)"
    by (induction xs) auto
  with Arr show ?thesis by simp
next
  case (Str s)
  with assms show ?thesis by (auto dest!: set_zip_rightD)
qed (use assms in auto)

text \<open>
  \<open>R.mergeDeepWithKey\<close>, under \<open>_curry3\<close>: merge with \<open>mergeWithKey\<close>, going down
  where both values of a key are objects and asking \<open>fn\<close> otherwise.
\<close>

function mergeDeepWithKey :: "mergefn \<Rightarrow> jsval \<Rightarrow> jsval \<Rightarrow> error + jsval" where
  "mergeDeepWithKey fn lObj rObj =
     (if isPlaceholder lObj \<or> isPlaceholder rObj then Inr Curried
      else mergeWithKey (\<lambda>k lVal rVal.
             if isObject lVal \<and> isObject rVal then mergeDeepWithKey fn lVal rVal
             else fn k lVal rVal) lObj rObj)"
  by pat_completeness auto
termination
  by (relation "measure (\<lambda>(fn, lObj, rObj). size lObj)") (auto intro: size_ownProps)

declare mergeDeepWithKey.simps [simp del]

text \<open>
  \<open>R.mergeDeepRight\<close>, under \<open>_curry2\<close>: where the two sides clash on a key, the
  right value stays.
\<close>

definition mergeDeepRight :: "jsval \<Rightarrow> jsval \<Rightarrow> error + jsval" where
  "mergeDeepRight lObj rObj =
     (if isPlaceholder lObj \<or> isPlaceholder rObj then Inr Curried
      else mergeDeepWithKey (\<lambda>k lVal rVal. Inr rVal) lObj rObj)"

text \<open>
  Ramda's \<open>_arity(n, fn)\<close> wraps \<open>fn\<close> into a function of \<open>n\<close> parameters, for \<open>n\<close> up
  to ten, and throws for a larger \<open>n\<close>. \<open>_curry1(fn)\<close>, called with one argument,
  returns itself for the placeholder and calls \<open>fn\<close> otherwise. \<open>_curryN(length, [], fn)\<close>,
  called with one argument, counts the arguments still to come (a placeholder does not
  count as one), calls \<open>fn\<close> when there is none and returns a function that waits for
  them otherwise. \<open>R.curryN(length, fn)\<close> is
  \<^verbatim>\<open>length === 1 ? _curry1(fn) : _arity(length, _curryN(length, [], fn))\<close>.
\<close>

definition arity :: "nat \<Rightarrow> 'f \<Rightarrow> error + 'f" where
  "arity n fn = (if n \<le> 10 then Inr fn else Inl ArityError)"

definition curry1 :: "'s jsfun \<Rightarrow> 's jsfun" where
  "curry1 fn a s = (if isPlaceholder a then (Inr Curried, s) else fn a s)"

definition curryN_received :: "nat \<Rightarrow> 's jsfun \<Rightarrow> 's jsfun" where
  "curryN_received length' fn a s =
     (let left = int length' - (if isPlaceholder a then 0 else 1)
      in if left \<le> 0 then fn a s
         else case arity (nat left) Curried of
                Inl e \<Rightarrow> (Inl e, s)
              | Inr waiting \<Rightarrow> (Inr waiting, s))"

definition curryN :: "nat \<Rightarrow> 's jsfun \<Rightarrow> error + 's jsfun" where
  "curryN length' fn =
     (if length' = 1 then Inr (curry1 fn) else arity length' (curryN_received length' fn))"

text \<open>
  The branches of \<open>R.converge\<close> (and so of \<open>R.juxt\<close>) called one after the other on the
  argument, \<^verbatim>\<open>_map(function(fn) { return fn.apply(context, args); }, fns)\<close>: each sees
  the world the one before it left; a branch that throws ends the call, and the branches
  after it do not run.
\<close>

fun callBranches :: "'s jsfunction list \<Rightarrow> jsval \<Rightarrow> 's \<Rightarrow> (error + jsval list) \<times> 's" where
  "callBranches [] a s = (Inr [], s)"
| "callBranches (fn # fns) a s =
     (case fn_call fn a s of
        (Inl e, s') \<Rightarrow> (Inl e, s')
      | (Inr v, s') \<Rightarrow>
          (case callBranches fns a s' of
             (Inl e, s'') \<Rightarrow> (Inl e, s'')
           | (Inr vs, s'') \<Rightarrow> (Inr (v # vs), s'')))"

text \<open>
  \<open>R.converge(after, fns)\<close>:
  \<^verbatim>\<open>curryN(reduce(max, 0, pluck('length', fns)), function() { ... })\<close>, a function
  curried to the longest parameter list of its branches (the reduction is over numbers,
  none of which carries a mark). \<open>R.juxt(fns)\<close> is \<open>converge\<close> with the array of the
  results for \<open>after\<close>.
\<close>

definition converge :: "(jsval list \<Rightarrow> jsval) \<Rightarrow> 's jsfunction list \<Rightarrow> error + 's jsfun" where
  "converge after fns =
     curryN (foldl max 0 (pluck fn_length fns))
       (\<lambda>a s. case callBranches fns a s of
                 (Inl e, s') \<Rightarrow> (Inl e, s')
               | (Inr vs, s') \<Rightarrow> (Inr (after vs), s'))"

definition juxt :: "'s jsfunction list \<Rightarrow> error + 's jsfun" where
  "juxt fns = converge Arr fns"

text \<open>
  \<open>Object.assign(target, ...sources)\<close>: every own enumerable property of every source
  is set on the target, sources left to right; a nil source has none.
\<close>

definition objectAssign :: "props \<Rightarrow> jsval list \<Rightarrow> props" where
  "objectAssign target sources =
     foldl (\<lambda>t source. foldl (\<lambda>t' (k, v). setProp k v t') t (ownProps source)) target sources"

text \<open>
  \<open>R.mergeAll(list)\<close>, under \<open>_curry1\<close>: \<open>Object.assign.apply(null, [{}].concat(list))\<close>.
  \<open>concat\<close> spreads an array and appends any other value as one element.
\<close>

definition mergeAll :: "jsval \<Rightarrow> jsval" where
  "mergeAll list =
     (if isPlaceholder list then Curried
      else Obj (objectAssign [] (case list of Arr vs \<Rightarrow> vs | _ \<Rightarrow> [list])))"

section \<open>The resource compiler\<close>

text \<open>
  A module descriptor, with the types of the JSDoc of \<open>compileGraphqlResources\<close>: every
  field is optional. An absent \<open>schema\<close> or \<open>resolvers\<close> reads as \<open>Undefined\<close>; an
  absent or nil \<open>context\<close> is \<open>None\<close>, a present one is a function.
\<close>

record 's moduleDescriptor =
  schema :: jsval
  resolvers :: jsval
  context_fn :: "'s jsfunction option"

text \<open>The argument of the compiler: one descriptor or an array of them.\<close>

datatype 's modules = Single "'s moduleDescriptor" | Many "'s moduleDescriptor list"

text \<open>\<open>arrify = R.ifElse(R.is(Array), R.identity, R.of)\<close>\<close>

fun arrify :: "'s modules \<Rightarrow> 's moduleDescriptor list" where
  "arrify (Many ms) = ms"
| "arrify (Single m) = [m]"

text \<open>
  The three functions of the \<open>R.applySpec\<close> in \<open>compileGraphqlResources\<close>, applied in
  the order of the keys; the first that throws ends the compilation. A context function
  is a function, so \<open>R.isNil\<close> answers for it, and is true of an absent one only.
\<close>

record 's resources =
  typeDefs :: "jsval list"
  resolvers :: jsval
  getContexts :: "'s jsfun"

definition getResources :: "'s moduleDescriptor list \<Rightarrow> error + 's resources" where
  "getResources ms =
     (let typeDefs' = reject R_isNil (pluck schema ms)
      in case reduce mergeDeepRight (Obj [])
                (reject R_isNil (pluck moduleDescriptor.resolvers ms)) of
           Inl e \<Rightarrow> Inl e
         | Inr resolvers' \<Rightarrow>
             (case juxt (map the (reject (\<lambda>c. Bool (c = None)) (pluck context_fn ms))) of
                Inl e \<Rightarrow> Inl e
              | Inr getContexts' \<Rightarrow>
                  Inr \<lparr> typeDefs = typeDefs', resolvers = resolvers',
                        getContexts = getContexts' \<rparr>))"

text \<open>What \<open>compileGraphqlResources\<close> returns.\<close>

record 's graphqlResources =
  typeDefs :: "jsval list"
  resolvers :: jsval
  getContext :: "'s jsfun"

definition compileGraphqlResources :: "'s modules \<Rightarrow> error + 's graphqlResources" where
  "compileGraphqlResources ms =
     (case getResources (arrify ms) of
        Inl e \<Rightarrow> Inl e
      | Inr resources \<Rightarrow>
          Inr \<lparr> typeDefs = resources.typeDefs resources,
                resolvers = resources.resolvers resources,
                getContext = (\<lambda>req s.
                  case getContexts resources req s of
                    (Inl e, s') \<Rightarrow> (Inl e, s')
                  | (Inr results, s') \<Rightarrow> (Inr (mergeAll results), s')) \<rparr>)"

text \<open>
  The arguments of a JavaScript call: a parameter with no argument is \<open>undefined\<close>.
\<close>

definition arg :: "jsval list \<Rightarrow> nat \<Rightarrow> jsval" where
  "arg args i = (if i < length args then args ! i else Undefined)"

section \<open>The executor\<close>

text \<open>
  What the executor is given by its environment: the schema builder of graphql-tools, the
  parser, \<open>execute\<close> and \<open>subscribe\<close> of graphql. Each returns or throws (\<open>Inl\<close>).
  \<open>execute\<close> returns whatever it returns (a promise): \<open>'r\<close>. \<open>subscribe\<close> returns a
  promise that rejects or resolves to an asynchronous iterator \<open>'q\<close>, and \<open>nextStep\<close> is
  one \<open>next()\<close> on such an iterator: a value, the end of the sequence, or a rejection.
\<close>

datatype 'a promise = Rejects error | Resolves 'a

datatype step = Yield jsval | Done | Failed error

record ('s, 'r, 'q) collaborators =
  makeExecutableSchema :: "jsval \<Rightarrow> error + jsval"
  parse :: "jsval \<Rightarrow> error + jsval"
  execute :: "jsval \<Rightarrow> 's \<Rightarrow> (error + 'r) \<times> 's"
  subscribe :: "jsval \<Rightarrow> 's \<Rightarrow> (error + 'q promise) \<times> 's"
  nextStep :: "'q \<Rightarrow> step \<times> 'q"

text \<open>What the closures \<open>run\<close> and \<open>subscribe\<close> of an executor hold on to.\<close>

record 's executor =
  ex_resources :: "'s graphqlResources"
  ex_schema :: jsval


text \<open>
  \<open>getOptions(query, graphqlOptions = {})\<close>. The default stands in for \<open>undefined\<close>
  only; reading a property of \<open>null\<close> throws a \<open>TypeError\<close>. The arguments of the first
  \<open>Object.assign\<close> are evaluated before \<open>parse(query)\<close>, so the context functions have
  run when a malformed query throws.
\<close>

definition getOptions ::
  "('s, 'r, 'q) collaborators \<Rightarrow> 's executor \<Rightarrow> jsval \<Rightarrow> jsval \<Rightarrow> 's \<Rightarrow> (error + jsval) \<times> 's"
  where
  "getOptions c ex query graphqlOptions0 s =
     (let graphqlOptions = (if graphqlOptions0 = Undefined then Obj [] else graphqlOptions0)
      in if graphqlOptions = Null then (Inl TypeError, s)
         else
           case getContext (ex_resources ex) (getProp ''contextArg'' graphqlOptions) s of
             (Inl e, s') \<Rightarrow> (Inl e, s')
           | (Inr moduleContext, s') \<Rightarrow>
               (let context' =
                      Obj (objectAssign []
                             [getProp ''contextValue'' graphqlOptions, moduleContext])
                in case parse c query of
                     Inl e \<Rightarrow> (Inl e, s')
                   | Inr document \<Rightarrow>
                       (Inr (Obj (objectAssign []
                                    [graphqlOptions,
                                     Obj [(''schema'', ex_schema ex),
                                          (''document'', document),
                                          (''contextValue'', context')]])), s')))"

text \<open>
  \<open>runQuery\<close>: what \<open>getOptions\<close> throws, else what \<open>execute(options)\<close> returns or
  throws.
\<close>

definition runQuery ::
  "('s, 'r, 'q) collaborators \<Rightarrow> 's executor \<Rightarrow> jsval \<Rightarrow> jsval \<Rightarrow> 's \<Rightarrow> (error + 'r) \<times> 's"
  where
  "runQuery c ex query graphqlOptions s =
     (case getOptions c ex query graphqlOptions s of
        (Inl e, s') \<Rightarrow> (Inl e, s')
      | (Inr options, s') \<Rightarrow> execute c options s')"

text \<open>
  \<open>forAwaitEach(iterator, callback)\<close> of iterall: ask the iterator for its next step,
  hand a value to the callback and go on once the callback is done; resolve at the end of
  the sequence, reject when the iterator or the callback does. A sequence that never ends
  leaves the promise pending: \<open>None\<close>.
\<close>

datatype settled = Resolved | Rejected error


text \<open>
  The same loop, watched: where the promise and the world stand when the iterator has
  answered \<open>n\<close> times (\<open>None\<close>: the promise is still pending).
\<close>

fun forAwaitEachUpTo ::
  "nat \<Rightarrow> ('q \<Rightarrow> step \<times> 'q) \<Rightarrow> 'q \<Rightarrow> 's jsfun \<Rightarrow> 's \<Rightarrow> settled option \<times> 's" where
  "forAwaitEachUpTo 0 nxt q callback s = (None, s)"
| "forAwaitEachUpTo (Suc n) nxt q callback s =
     (case nxt q of
        (Done, q') \<Rightarrow> (Some Resolved, s)
      | (Failed e, q') \<Rightarrow> (Some (Rejected e), s)
      | (Yield v, q') \<Rightarrow>
          (case callback v s of
             (Inl e, s') \<Rightarrow> (Some (Rejected e), s')
           | (Inr u, s') \<Rightarrow> forAwaitEachUpTo n nxt q' callback s'))"



text \<open>
  The method \<open>run\<close> of an executor, called with a list of arguments: \<open>run(query)\<close>
  leaves \<open>graphqlOptions\<close> undefined.
\<close>

definition run ::
  "('s, 'r, 'q) collaborators \<Rightarrow> 's executor \<Rightarrow> jsval list \<Rightarrow> 's \<Rightarrow> (error + 'r) \<times> 's" where
  "run c ex args s = runQuery c ex (arg args 0) (arg args 1) s"

section \<open>The compiled bundle\<close>




section \<open>The modules of the test suite\<close>





text \<open>
  Modules whose context function leaves a trace in the world, here the list of the calls
  made so far (who was called, with which argument). It declares \<open>n\<close> parameters and
  returns \<open>v\<close>, or throws \<open>e\<close>.
\<close>

definition tracedModule ::
  "nat \<Rightarrow> string \<Rightarrow> jsval \<Rightarrow> (string \<times> jsval) list moduleDescriptor" where
  "tracedModule n name v =
     \<lparr> schema = Undefined, resolvers = Undefined,
       context_fn = Some \<lparr> fn_length = n,
                           fn_call = (\<lambda>req s. (Inr v, s @ [(name, req)])) \<rparr> \<rparr>"

definition throwingModule :: "string \<Rightarrow> jsval \<Rightarrow> (string \<times> jsval) list moduleDescriptor" where
  "throwingModule name e =
     \<lparr> schema = Undefined, resolvers = Undefined,
       context_fn = Some \<lparr> fn_length = 1,
                           fn_call = (\<lambda>req s. (Inl (Thrown e), s @ [(name, req)])) \<rparr> \<rparr>"












section \<open>The vocabulary of the specification\<close>



text \<open>
  What \<open>R.reject(R.isNil)\<close> keeps: a value that is neither nil nor Ramda's placeholder.
\<close>

definition kept :: "jsval \<Rightarrow> bool" where
  "kept v = (\<not> isNil v \<and> \<not> isPlaceholder v)"

text \<open>
  The specification's deep-merge rule. \<open>keysOfBoth\<close>: the result has the keys of both
  sides, a key of one side only with its value, a key of both sides with what \<open>fn\<close>
  makes of the two values. \<open>deepMergeRule\<close>: for a key of both sides the merge goes down
  when both values are mappings, and the right value wins otherwise.
\<close>

definition keysOfBoth ::
  "(string \<Rightarrow> jsval \<Rightarrow> jsval \<Rightarrow> jsval) \<Rightarrow> jsval \<Rightarrow> jsval \<Rightarrow> jsval" where
  "keysOfBoth fn l r =
     (let fromL = map (\<lambda>(k, lVal).
                    (k, case map_of (ownProps r) k of
                          Some rVal \<Rightarrow> fn k lVal rVal
                        | None \<Rightarrow> lVal)) (ownProps l);
          fromR = filter (\<lambda>(k, rVal). map_of fromL k = None) (ownProps r)
      in Obj (fromL @ fromR))"

lemma keysOfBoth_cong [fundef_cong]:
  assumes "l = l'" and "r = r'"
    and "\<And>k lVal rVal. (k, lVal) \<in> set (ownProps l') \<Longrightarrow>
           map_of (ownProps r') k = Some rVal \<Longrightarrow> fn k lVal rVal = fn' k lVal rVal"
  shows "keysOfBoth fn l r = keysOfBoth fn' l' r'"
proof -
  have eq: "map (\<lambda>(k, lVal). (k, case map_of (ownProps r') k of
                                 Some rVal \<Rightarrow> fn k lVal rVal | None \<Rightarrow> lVal)) (ownProps l')
      = map (\<lambda>(k, lVal). (k, case map_of (ownProps r') k of
                                 Some rVal \<Rightarrow> fn' k lVal rVal | None \<Rightarrow> lVal)) (ownProps l')"
    using assms(3) by (auto split: option.splits)
  show ?thesis
    by (simp only: keysOfBoth_def assms(1) assms(2) eq)
qed







text \<open>
  The context functions of the descriptors, in order, and the most parameters one of
  them declares.
\<close>

definition contextFunctions :: "'s moduleDescriptor list \<Rightarrow> 's jsfunction list" where
  "contextFunctions ms = map the (filter (\<lambda>c. c \<noteq> None) (map context_fn ms))"

definition declaresAtMost :: "nat \<Rightarrow> 's moduleDescriptor list \<Rightarrow> bool" where
  "declaresAtMost n ms = list_all (\<lambda>f. fn_length f \<le> n) (contextFunctions ms)"

text \<open>
  The specification's reading of \<open>getContext\<close>: walk the descriptors in order and call
  every context function that is there with the argument, each in the world the one
  before left; collect what they return.
\<close>

fun callInOrder ::
  "'s moduleDescriptor list \<Rightarrow> jsval \<Rightarrow> 's \<Rightarrow> (error + jsval list) \<times> 's" where
  "callInOrder [] r s = (Inr [], s)"
| "callInOrder (m # ms) r s =
     (case context_fn m of
        None \<Rightarrow> callInOrder ms r s
      | Some f \<Rightarrow>
          (case fn_call f r s of
             (Inl e, s') \<Rightarrow> (Inl e, s')
           | (Inr v, s') \<Rightarrow>
               (case callInOrder ms r s' of
                  (Inl e, s'') \<Rightarrow> (Inl e, s'')
                | (Inr vs, s'') \<Rightarrow> (Inr (v # vs), s''))))"



text \<open>
  When the function \<open>R.juxt\<close> returns, called with \<open>r\<close>, runs its branches: when no
  branch declares a parameter, or none declares more than one and \<open>r\<close> is not the
  placeholder.
\<close>

definition branchesRun :: "'s moduleDescriptor list \<Rightarrow> jsval \<Rightarrow> bool" where
  "branchesRun ms r = (declaresAtMost 0 ms \<or> declaresAtMost 1 ms \<and> \<not> isPlaceholder r)"






section \<open>Assignments\<close>

lemma reject_R_isNil: "reject R_isNil xs = filter kept xs"
  by (induction xs) (simp_all add: reject_def complement_def R_isNil_def kept_def)

lemma kept_not_nil: "kept v \<Longrightarrow> \<not> isNil v"
  by (simp add: kept_def)

lemma map_of_putProp: "map_of (putProp k v ps) = (map_of ps)(k \<mapsto> v)"
  by (induction ps) auto

lemma keys_putProp: "fst ` set (putProp k v ps) = insert k (fst ` set ps)"
proof -
  have "dom (map_of (putProp k v ps)) = insert k (dom (map_of ps))"
    by (simp add: map_of_putProp)
  then show ?thesis by (simp only: dom_map_of_conv_image_fst)
qed







lemma keys_setProp_subset: "fst ` set (setProp k v ps) \<subseteq> insert k (fst ` set ps)"
  by (auto simp: setProp_def keys_putProp)



section \<open>Resolvers\<close>






























text \<open>The merge of the compiler does not throw: no tree it is given is nil.\<close>

lemma has_not_nil: "\<not> isNil r \<Longrightarrow> \<exists>b. has k r = Inr b"
  by (simp add: has_def)

lemma mergeLeftLoop_returns:
  assumes "\<not> isNil r"
    and "\<And>k lVal. (k, lVal) \<in> set ps \<Longrightarrow> \<exists>v. fn k lVal (getProp k r) = Inr v"
  shows "\<exists>result'. mergeLeftLoop fn r ps result = Inr result'"
  using assms(2)
proof (induction ps arbitrary: result)
  case Nil
  show ?case by simp
next
  case (Cons p ps)
  obtain k lVal where p: "p = (k, lVal)" by (cases p)
  from has_not_nil [OF assms(1)] obtain b where b: "has k r = Inr b" by blast
  from Cons.prems [of k lVal] obtain v where v: "fn k lVal (getProp k r) = Inr v"
    by (auto simp: p)
  have rest: "\<exists>result'. mergeLeftLoop fn r ps res = Inr result'" for res
    by (rule Cons.IH) (use Cons.prems in auto)
  show ?case
    using rest [of "setProp k v result"] rest [of "setProp k lVal result"]
    by (cases b) (simp_all add: p b v)
qed

lemma mergeWithKey_returns:
  assumes "\<not> isNil r"
    and "\<And>k lVal. (k, lVal) \<in> set (ownProps l) \<Longrightarrow> \<exists>v. fn k lVal (getProp k r) = Inr v"
  shows "\<exists>v. mergeWithKey fn l r = Inr v"
  using mergeLeftLoop_returns [OF assms(1), of "ownProps l" fn "[]"] assms(2)
  by (auto simp: mergeWithKey_def)

lemma isObject_not_nil: "isObject v \<Longrightarrow> \<not> isNil v"
  by (cases v) auto

lemma mergeDeepWithKey_returns:
  "\<not> isNil r \<Longrightarrow> \<exists>v. mergeDeepWithKey (\<lambda>k lVal rVal. Inr rVal) l r = Inr v"
proof (induction l arbitrary: r rule: measure_induct_rule [where f = size])
  case (less l)
  let ?fn = "\<lambda>k lVal rVal. if isObject lVal \<and> isObject rVal
               then mergeDeepWithKey (\<lambda>k lVal rVal. Inr rVal) lVal rVal else Inr rVal"
  have "\<exists>v. ?fn k lVal (getProp k r) = Inr v" if "(k, lVal) \<in> set (ownProps l)" for k lVal
  proof (cases "isObject lVal \<and> isObject (getProp k r)")
    case True
    then have "size lVal < size l" using size_ownProps [OF that] by simp
    from less.IH [OF this, of "getProp k r"] True show ?thesis
      by (simp add: isObject_not_nil)
  next
    case False
    then show ?thesis by auto
  qed
  from mergeWithKey_returns [OF less.prems, of l ?fn, OF this]
  show ?case
    by (subst mergeDeepWithKey.simps) auto
qed

lemma mergeDeepRight_returns: "\<not> isNil r \<Longrightarrow> \<exists>v. mergeDeepRight l r = Inr v"
  using mergeDeepWithKey_returns [of r l] by (auto simp: mergeDeepRight_def)

lemma reduce_returns:
  "\<forall>t\<in>set ts. \<not> isNil t \<Longrightarrow> \<exists>v. reduce mergeDeepRight acc ts = Inr v"
proof (induction ts arbitrary: acc)
  case Nil
  show ?case by simp
next
  case (Cons t ts)
  from Cons.prems mergeDeepRight_returns [of t acc] obtain acc' where
    "mergeDeepRight acc t = Inr acc'" by auto
  then show ?case using Cons.IH [of acc'] Cons.prems by auto
qed

lemma resolvers_returns:
  "\<exists>v. reduce mergeDeepRight (Obj []) (reject R_isNil (pluck moduleDescriptor.resolvers ms)) = Inr v"
  by (rule reduce_returns) (simp add: reject_R_isNil kept_def)

section \<open>Compiling\<close>

lemma foldl_max_le: "(foldl max (a::nat) xs \<le> n) = (a \<le> n \<and> list_all (\<lambda>x. x \<le> n) xs)"
  by (induction xs arbitrary: a) auto

lemma present_contexts:
  "map the (reject (\<lambda>c. Bool (c = None)) (pluck context_fn ms)) = contextFunctions ms"
proof -
  have "complement (\<lambda>c. Bool (c = None)) = (\<lambda>c :: 'a jsfunction option. c \<noteq> None)"
    by (simp add: fun_eq_iff complement_def)
  then show ?thesis
    by (simp add: reject_def pluck_def contextFunctions_def)
qed

lemma longest_le:
  "(foldl max 0 (pluck fn_length (contextFunctions ms)) \<le> n) = declaresAtMost n ms"
  by (simp add: foldl_max_le pluck_def declaresAtMost_def list_all_iff)

lemma callBranches_callInOrder: "callBranches (contextFunctions ms) r s = callInOrder ms r s"
proof (induction ms arbitrary: s)
  case Nil
  show ?case by (simp add: contextFunctions_def)
next
  case (Cons m ms)
  from Cons [unfolded contextFunctions_def] show ?case
    by (cases "context_fn m") (auto simp: contextFunctions_def split: prod.splits sum.splits)
qed

lemma declaresAtMost_mono: "declaresAtMost n ms \<Longrightarrow> n \<le> n' \<Longrightarrow> declaresAtMost n' ms"
  by (auto simp: declaresAtMost_def list_all_iff)

lemma juxt_contexts:
  "juxt (contextFunctions ms) =
     (if declaresAtMost 10 ms then
        Inr (\<lambda>r s. if branchesRun ms r then
                     (case callInOrder ms r s of
                        (Inl e, s') \<Rightarrow> (Inl e, s')
                      | (Inr vs, s') \<Rightarrow> (Inr (Arr vs), s'))
                   else (Inr Curried, s))
      else Inl ArityError)"
proof -
  let ?n = "foldl max 0 (pluck fn_length (contextFunctions ms))"
  let ?body = "\<lambda>a s. case callBranches (contextFunctions ms) a s of
                 (Inl e, s') \<Rightarrow> (Inl e, s')
               | (Inr vs, s') \<Rightarrow> (Inr (Arr vs), s')"
  have n: "(?n \<le> k) = declaresAtMost k ms" for k by (rule longest_le)
  show ?thesis
  proof (cases "declaresAtMost 10 ms")
    case False
    then have "\<not> ?n \<le> 10" by (simp add: n)
    then show ?thesis
      using False by (simp add: juxt_def converge_def curryN_def arity_def)
  next
    case True
    then have le: "?n \<le> 10" by (simp add: n)
    consider (zero) "?n = 0" | (one) "?n = 1" | (more) "2 \<le> ?n" by linarith
    then show ?thesis
    proof cases
      case zero
      then have "declaresAtMost 0 ms" using n [of 0] by simp
      then have "branchesRun ms r" for r by (simp add: branchesRun_def)
      then show ?thesis
        using True zero
        by (simp add: juxt_def converge_def curryN_def arity_def curryN_received_def
            callBranches_callInOrder fun_eq_iff)
    next
      case one
      then have "declaresAtMost 1 ms" "\<not> declaresAtMost 0 ms" using n [of 1] n [of 0] by simp_all
      then have "branchesRun ms r = (\<not> isPlaceholder r)" for r by (simp add: branchesRun_def)
      then show ?thesis
        using True one
        by (simp add: juxt_def converge_def curryN_def curry1_def callBranches_callInOrder
            fun_eq_iff)
    next
      case more
      then have "\<not> declaresAtMost 1 ms" "\<not> declaresAtMost 0 ms" using n [of 1] n [of 0] by simp_all
      then have "\<not> branchesRun ms r" for r by (simp add: branchesRun_def)
      moreover have "?n \<noteq> 1" using more by simp
      moreover have "nat (int ?n - 1) \<le> 10" "nat (int ?n) \<le> 10" "\<not> int ?n \<le> 1" "\<not> ?n = 0"
        using le more by simp_all
      ultimately show ?thesis
        using True le
        by (simp add: juxt_def converge_def curryN_def arity_def curryN_received_def fun_eq_iff)
    qed
  qed
qed

lemma mergeAll_Curried: "mergeAll Curried = Obj []"
  by (simp add: mergeAll_def isPlaceholder_def objectAssign_def)

lemma mergeAll_Arr: "mergeAll (Arr vs) = Obj (objectAssign [] vs)"
  by (simp add: mergeAll_def isPlaceholder_def)

text \<open>
  What compiling gives: it throws when a context function declares more than ten
  parameters, and returns otherwise.
\<close>

lemma compile_throws:
  "\<not> declaresAtMost 10 (arrify M) \<Longrightarrow> compileGraphqlResources M = Inl ArityError"
  using resolvers_returns [of "arrify M"]
  by (auto simp: compileGraphqlResources_def getResources_def Let_def present_contexts juxt_contexts)

lemma compile_returns:
  assumes "declaresAtMost 10 (arrify M)"
  shows "\<exists>b. compileGraphqlResources M = Inr b
    \<and> graphqlResources.typeDefs b = filter kept (map schema (arrify M))
    \<and> Inr (graphqlResources.resolvers b) =
        reduce mergeDeepRight (Obj [])
          (filter kept (map moduleDescriptor.resolvers (arrify M)))
    \<and> getContext b =
        (\<lambda>r s. if branchesRun (arrify M) r then
                  (case callInOrder (arrify M) r s of
                     (Inl e, s') \<Rightarrow> (Inl e, s')
                   | (Inr vs, s') \<Rightarrow> (Inr (Obj (objectAssign [] vs)), s'))
                else (Inr (Obj []), s))"
proof -
  let ?gc = "\<lambda>r s. if branchesRun (arrify M) r then
                     (case callInOrder (arrify M) r s of
                        (Inl e, s') \<Rightarrow> (Inl e, s')
                      | (Inr vs, s') \<Rightarrow> (Inr (Arr vs), s'))
                   else (Inr Curried, s)"
  from resolvers_returns [of "arrify M"] obtain v where
    v: "reduce mergeDeepRight (Obj []) (reject R_isNil (pluck moduleDescriptor.resolvers (arrify M)))
          = Inr v" by blast
  have j: "juxt (map the (reject (\<lambda>c. Bool (c = None)) (pluck context_fn (arrify M)))) = Inr ?gc"
    using assms by (simp only: present_contexts juxt_contexts if_True)
  have gr: "getResources (arrify M) =
      Inr \<lparr> resources.typeDefs = reject R_isNil (pluck schema (arrify M)), resolvers = v,
            getContexts = ?gc \<rparr>"
    unfolding getResources_def Let_def v j by simp
  have eq: "(\<lambda>req s. case ?gc req s of
                  (Inl e, s') \<Rightarrow> (Inl e, s')
                | (Inr results, s') \<Rightarrow> (Inr (mergeAll results), s'))
      = (\<lambda>r s. if branchesRun (arrify M) r then
                  (case callInOrder (arrify M) r s of
                     (Inl e, s') \<Rightarrow> (Inl e, s')
                   | (Inr vs, s') \<Rightarrow> (Inr (Obj (objectAssign [] vs)), s'))
                else (Inr (Obj []), s))"
    by (auto simp: fun_eq_iff mergeAll_Curried mergeAll_Arr split: prod.splits sum.splits)
  have v': "reduce mergeDeepRight (Obj [])
          (filter kept (map moduleDescriptor.resolvers (arrify M))) = Inr v"
    using v by (simp add: reject_R_isNil pluck_def)
  show ?thesis
    unfolding compileGraphqlResources_def gr
    by (simp add: eq v') (simp add: reject_R_isNil pluck_def)
qed

lemma compile_Inr:
  "compileGraphqlResources M = Inr b \<Longrightarrow> declaresAtMost 10 (arrify M)"
  using compile_throws [of M] by (cases "declaresAtMost 10 (arrify M)") auto

lemma getContext_compile:
  assumes "compileGraphqlResources M = Inr b"
  shows "getContext b r s =
     (if branchesRun (arrify M) r then
        (case callInOrder (arrify M) r s of
           (Inl e, s') \<Rightarrow> (Inl e, s')
         | (Inr vs, s') \<Rightarrow> (Inr (Obj (objectAssign [] vs)), s'))
      else (Inr (Obj []), s))"
  using compile_returns [OF compile_Inr [OF assms]] assms by auto

lemma typeDefs_compile:
  assumes "compileGraphqlResources M = Inr b"
  shows "graphqlResources.typeDefs b = filter kept (map schema (arrify M))"
  using compile_returns [OF compile_Inr [OF assms]] assms by auto

lemma resolvers_compile:
  assumes "compileGraphqlResources M = Inr b"
  shows "Inr (graphqlResources.resolvers b) =
        reduce mergeDeepRight (Obj [])
          (filter kept (map moduleDescriptor.resolvers (arrify M)))"
  using compile_returns [OF compile_Inr [OF assms]] assms by auto

section \<open>Type definitions\<close>








section \<open>Resolvers, compiled\<close>
















section \<open>Context\<close>











lemma callInOrder_append:
  "callInOrder (ms1 @ ms2) r s =
     (case callInOrder ms1 r s of
        (Inl e, s') \<Rightarrow> (Inl e, s')
      | (Inr vs, s') \<Rightarrow>
          (case callInOrder ms2 r s' of
             (Inl e, s'') \<Rightarrow> (Inl e, s'')
           | (Inr ws, s'') \<Rightarrow> (Inr (vs @ ws), s'')))"
  by (induction ms1 arbitrary: s) (auto split: option.splits prod.splits sum.splits)

lemma callInOrder_throws:
  "callInOrder ms r s = (Inl e, s') \<Longrightarrow>
     \<exists>ms1 m ms2 f vs s1. ms = ms1 @ m # ms2 \<and> context_fn m = Some f \<and>
        callInOrder ms1 r s = (Inr vs, s1) \<and> fn_call f r s1 = (Inl e, s')"
proof (induction ms arbitrary: s)
  case Nil
  then show ?case by simp
next
  case (Cons m ms)
  show ?case
  proof (cases "context_fn m")
    case None
    with Cons.prems have "callInOrder ms r s = (Inl e, s')" by simp
    from Cons.IH [OF this] obtain ms1 m' ms2 f vs s1 where
      "ms = ms1 @ m' # ms2" "context_fn m' = Some f" "callInOrder ms1 r s = (Inr vs, s1)"
      "fn_call f r s1 = (Inl e, s')" by blast
    with None have "m # ms = (m # ms1) @ m' # ms2 \<and> context_fn m' = Some f \<and>
        callInOrder (m # ms1) r s = (Inr vs, s1) \<and> fn_call f r s1 = (Inl e, s')" by simp
    then show ?thesis by blast
  next
    case (Some f)
    obtain res s0 where fr: "fn_call f r s = (res, s0)" by (cases "fn_call f r s")
    show ?thesis
    proof (cases res)
      case (Inl e0)
      with Cons.prems Some fr have "fn_call f r s = (Inl e, s')" by simp
      with Some have "m # ms = [] @ m # ms \<and> context_fn m = Some f \<and>
        callInOrder [] r s = (Inr [], s) \<and> fn_call f r s = (Inl e, s')" by simp
      then show ?thesis by blast
    next
      case (Inr v)
      with Cons.prems Some fr have "callInOrder ms r s0 = (Inl e, s')"
        by (auto split: prod.splits sum.splits)
      from Cons.IH [OF this] obtain ms1 m' ms2 f' vs s1 where
        *: "ms = ms1 @ m' # ms2" "context_fn m' = Some f'" "callInOrder ms1 r s0 = (Inr vs, s1)"
        "fn_call f' r s1 = (Inl e, s')" by blast
      with Some fr Inr have "m # ms = (m # ms1) @ m' # ms2 \<and> context_fn m' = Some f' \<and>
        callInOrder (m # ms1) r s = (Inr (v # vs), s1) \<and> fn_call f' r s1 = (Inl e, s')" by simp
      then show ?thesis by blast
    qed
  qed
qed




text \<open>
  C7. \<open>getContext(r)\<close> of a compiled bundle throws \<open>e\<close> exactly when it calls the context
  functions and one of them throws \<open>e\<close>: the functions of the descriptors before it
  have all returned, it is called in the world they left and throws, and \<open>getContext\<close>
  ends with that very \<open>e\<close> in the world of the throw. No other error comes out of
  \<open>getContext\<close>.
\<close>

theorem context_exception_propagates:
  assumes "compileGraphqlResources M = Inr b"
  shows "(getContext b r s = (Inl e, s')) =
   (branchesRun (arrify M) r \<and>
    (\<exists>ms1 m ms2 f vs s1.
       arrify M = ms1 @ m # ms2 \<and> context_fn m = Some f \<and>
       callInOrder ms1 r s = (Inr vs, s1) \<and> fn_call f r s1 = (Inl e, s')))"
proof
  assume "getContext b r s = (Inl e, s')"
  then have "branchesRun (arrify M) r \<and> callInOrder (arrify M) r s = (Inl e, s')"
    by (auto simp: getContext_compile [OF assms] split: prod.splits sum.splits if_splits)
  then show "branchesRun (arrify M) r \<and>
    (\<exists>ms1 m ms2 f vs s1.
       arrify M = ms1 @ m # ms2 \<and> context_fn m = Some f \<and>
       callInOrder ms1 r s = (Inr vs, s1) \<and> fn_call f r s1 = (Inl e, s'))"
    by (blast dest: callInOrder_throws)
next
  assume "branchesRun (arrify M) r \<and>
    (\<exists>ms1 m ms2 f vs s1.
       arrify M = ms1 @ m # ms2 \<and> context_fn m = Some f \<and>
       callInOrder ms1 r s = (Inr vs, s1) \<and> fn_call f r s1 = (Inl e, s'))"
  then obtain ms1 m ms2 f vs s1 where run: "branchesRun (arrify M) r" and
    "arrify M = ms1 @ m # ms2" "context_fn m = Some f"
    "callInOrder ms1 r s = (Inr vs, s1)" "fn_call f r s1 = (Inl e, s')"
    by blast
  then have "callInOrder (arrify M) r s = (Inl e, s')"
    by (simp add: callInOrder_append)
  with run show "getContext b r s = (Inl e, s')"
    by (simp add: getContext_compile [OF assms])
qed

theorem context_exception_propagates_witness:
  "branchesRun
     [tracedModule 1 ''a'' (Obj [(''user'', Str ''u1'')]),
      throwingModule ''b'' (Str ''boom''),
      tracedModule 1 ''c'' (Obj [])] (Num 5)
   \<and> (\<exists>b. compileGraphqlResources (Many
          [tracedModule 1 ''a'' (Obj [(''user'', Str ''u1'')]),
           throwingModule ''b'' (Str ''boom''),
           tracedModule 1 ''c'' (Obj [])]) = Inr b
        \<and> getContext b (Num 5) []
            = (Inl (Thrown (Str ''boom'')), [(''a'', Num 5), (''b'', Num 5)]))"
proof -
  let ?a = "tracedModule 1 ''a'' (Obj [(''user'', Str ''u1'')])"
  let ?b = "throwingModule ''b'' (Str ''boom'')"
  let ?c = "tracedModule 1 ''c'' (Obj [])"
  let ?f = "\<lparr> fn_length = 1,
              fn_call = (\<lambda>req s. (Inl (Thrown (Str ''boom'')), s @ [(''b'', req)])) \<rparr>
              :: (string \<times> jsval) list jsfunction"
  have one: "declaresAtMost 1 (arrify (Many [?a, ?b, ?c]))"
    by (simp add: declaresAtMost_def contextFunctions_def tracedModule_def throwingModule_def)
  then have run: "branchesRun (arrify (Many [?a, ?b, ?c])) (Num 5)"
    by (simp add: branchesRun_def isPlaceholder_def)
  from compile_returns [OF declaresAtMost_mono [OF one, of 10]] obtain b where
    b: "compileGraphqlResources (Many [?a, ?b, ?c]) = Inr b" by auto
  have "arrify (Many [?a, ?b, ?c]) = [?a] @ ?b # [?c] \<and> context_fn ?b = Some ?f \<and>
        callInOrder [?a] (Num 5) [] = (Inr [Obj [(''user'', Str ''u1'')]], [(''a'', Num 5)]) \<and>
        fn_call ?f (Num 5) [(''a'', Num 5)] =
          (Inl (Thrown (Str ''boom'')), [(''a'', Num 5), (''b'', Num 5)])"
    by (simp add: tracedModule_def throwingModule_def)
  then have "\<exists>ms1 m ms2 f vs s1.
       arrify (Many [?a, ?b, ?c]) = ms1 @ m # ms2 \<and> context_fn m = Some f \<and>
       callInOrder ms1 (Num 5) [] = (Inr vs, s1) \<and>
       fn_call f (Num 5) s1 = (Inl (Thrown (Str ''boom'')), [(''a'', Num 5), (''b'', Num 5)])"
    by blast
  with run have "getContext b (Num 5) [] =
      (Inl (Thrown (Str ''boom'')), [(''a'', Num 5), (''b'', Num 5)])"
    by (simp only: context_exception_propagates [OF b])
  with run b show ?thesis by auto
qed



section \<open>A bare descriptor\<close>



section \<open>The executor's options\<close>

















section \<open>Subscriptions\<close>









lemma forAwaitEachUpTo_mono:
  "forAwaitEachUpTo n nxt q callback s = (Some outcome, s') \<Longrightarrow> n \<le> m \<Longrightarrow>
     forAwaitEachUpTo m nxt q callback s = (Some outcome, s')"
proof (induction n arbitrary: m q s)
  case 0
  then show ?case by simp
next
  case (Suc n)
  from Suc.prems(2) obtain m' where m: "m = Suc m'" "n \<le> m'" by (cases m) auto
  show ?case
    using Suc.prems(1) Suc.IH [OF _ m(2)]
    by (auto simp: m(1) split: prod.splits step.splits sum.splits)
qed






end
